theory Spec2Isabelle
  imports
    Main
    "HOL-Library.AList"
    "HOL-Library.Char_ord"
    "HOL-Library.List_Lexorder"
    "HOL-Library.Multiset"
begin

section \<open>Candidate sets (internal/completion/values.go)\<close>

text \<open>
  A Go \<open>string\<close> is a sequence of bytes, as is a HOL \<open>string\<close>. The fields of
  \<open>Candidate\<close> read by values.go are \<open>Value\<close>, \<open>Display\<close> and \<open>Tag\<close>; the struct
  itself is declared elsewhere in the package, and \<open>no_space\<close> is the remaining
  field the specification lists.
\<close>

record Candidate =
  Value :: string
  Display :: string
  Tag :: string
  no_space :: bool

type_synonym RawValues = "Candidate list"

text \<open>Run-time panics of Go that the modelled functions can raise.\<close>

datatype panic = IndexOutOfRange | AssignToNilMap

subsection \<open>The functions of package strings that values.go calls\<close>

text \<open>
  \<open>strings.ToLower\<close> has a fast path for strings whose bytes are all below
  \<open>utf8.RuneSelf = 0x80\<close>: every byte in \<open>'A'..'Z'\<close> is moved by \<open>'a' - 'A'\<close>, the
  rest is kept. For any other string it returns \<open>strings.Map(unicode.ToLower, s)\<close>,
  which depends on the Unicode tables; that part is the parameter \<open>umap\<close>.
\<close>

definition isUpperByte :: "char \<Rightarrow> bool" where
  "isUpperByte c = (of_char CHR ''A'' \<le> (of_char c :: nat) \<and> (of_char c :: nat) \<le> of_char CHR ''Z'')"

definition lowerByte :: "char \<Rightarrow> char" where
  "lowerByte c = (if isUpperByte c then char_of ((of_char c :: nat) + 32) else c)"

definition isASCII :: "string \<Rightarrow> bool" where
  "isASCII s = list_all (\<lambda>c. (of_char c :: nat) < 128) s"

definition ToLower :: "(string \<Rightarrow> string) \<Rightarrow> string \<Rightarrow> string" where
  "ToLower umap s = (if isASCII s then map lowerByte s else umap s)"

text \<open>\<open>strings.HasPrefix\<close>: \<open>len(s) >= len(prefix) && s[:len(prefix)] == prefix\<close>.\<close>

definition HasPrefix :: "string \<Rightarrow> string \<Rightarrow> bool" where
  "HasPrefix s pre = (length pre \<le> length s \<and> take (length pre) s = pre)"

text \<open>
  The operator \<open><\<close> of Go on strings compares byte by byte, as unsigned values; a
  proper prefix is smaller.
\<close>

fun stringLess :: "string \<Rightarrow> string \<Rightarrow> bool" where
  "stringLess [] [] = False"
| "stringLess [] (b # bs) = True"
| "stringLess (a # as) [] = False"
| "stringLess (a # as) (b # bs) =
     (if (of_char a :: nat) < of_char b then True
      else if (of_char b :: nat) < of_char a then False
      else stringLess as bs)"

subsection \<open>FilterPrefix\<close>

text \<open>
  The loop of \<open>FilterPrefix\<close>, with \<open>prefix\<close> already folded when \<open>matchCase\<close> is
  false: a candidate is appended to \<open>filtered\<close> when its (folded) value starts with
  the prefix.
\<close>

fun filterPrefixLoop :: "(string \<Rightarrow> string) \<Rightarrow> string \<Rightarrow> bool \<Rightarrow> RawValues \<Rightarrow> RawValues \<Rightarrow> RawValues" where
  "filterPrefixLoop umap pre matchCase [] filtered = filtered"
| "filterPrefixLoop umap pre matchCase (raw # rest) filtered =
     (let val = Value raw;
          val = (if \<not> matchCase then ToLower umap val else val)
      in filterPrefixLoop umap pre matchCase rest
           (if HasPrefix val pre then filtered @ [raw] else filtered))"

definition FilterPrefix :: "(string \<Rightarrow> string) \<Rightarrow> RawValues \<Rightarrow> string \<Rightarrow> bool \<Rightarrow> RawValues" where
  "FilterPrefix umap c pre matchCase =
     (if pre = [] then c
      else filterPrefixLoop umap (if \<not> matchCase then ToLower umap pre else pre) matchCase c [])"

subsection \<open>Less\<close>

text \<open>Indexing a slice with a Go \<open>int\<close> panics outside \<open>0 .. len - 1\<close>.\<close>

definition index :: "'a list \<Rightarrow> int \<Rightarrow> panic + 'a" where
  "index xs i = (if 0 \<le> i \<and> i < int (length xs) then Inr (xs ! nat i) else Inl IndexOutOfRange)"

definition Less :: "(string \<Rightarrow> string) \<Rightarrow> RawValues \<Rightarrow> int \<Rightarrow> int \<Rightarrow> panic + bool" where
  "Less umap x i j =
     (case index x i of
        Inl e \<Rightarrow> Inl e
      | Inr xi \<Rightarrow>
          (case index x j of
             Inl e \<Rightarrow> Inl e
           | Inr xj \<Rightarrow> Inr (stringLess (ToLower umap (Value xi)) (ToLower umap (Display xj)))))"

subsection \<open>EachTag\<close>

text \<open>
  \<open>tagGroups\<close> is a \<open>map[string]RawValues\<close>. Reading a key that is absent gives
  the zero value, a nil slice.
\<close>

definition groupOf :: "(string \<rightharpoonup> RawValues) \<Rightarrow> string \<Rightarrow> RawValues" where
  "groupOf tagGroups tag = (case tagGroups tag of None \<Rightarrow> [] | Some g \<Rightarrow> g)"

text \<open>The first loop: it fills \<open>tags\<close> and \<open>tagGroups\<close> from the candidates.\<close>

fun eachTagCollect ::
  "RawValues \<Rightarrow> string list \<Rightarrow> (string \<rightharpoonup> RawValues) \<Rightarrow> string list \<times> (string \<rightharpoonup> RawValues)" where
  "eachTagCollect [] tags tagGroups = (tags, tagGroups)"
| "eachTagCollect (val # rest) tags tagGroups =
     (let (tags, tagGroups) =
            (if tagGroups (Tag val) = None
             then (tags @ [Tag val], tagGroups(Tag val \<mapsto> []))
             else (tags, tagGroups));
          tagGroups = tagGroups(Tag val \<mapsto> groupOf tagGroups (Tag val) @ [val])
      in eachTagCollect rest tags tagGroups)"

text \<open>
  The second loop: \<open>tagF\<close> is called once per tag, in the order of \<open>tags\<close>. The
  callback acts on a state of the caller's choice.
\<close>

fun eachTagEmit ::
  "(string \<Rightarrow> RawValues \<Rightarrow> 'a \<Rightarrow> 'a) \<Rightarrow> (string \<rightharpoonup> RawValues) \<Rightarrow> string list \<Rightarrow> 'a \<Rightarrow> 'a" where
  "eachTagEmit tagF tagGroups [] s = s"
| "eachTagEmit tagF tagGroups (tag # tags) s =
     eachTagEmit tagF tagGroups tags (tagF tag (groupOf tagGroups tag) s)"

definition EachTag :: "RawValues \<Rightarrow> (string \<Rightarrow> RawValues \<Rightarrow> 'a \<Rightarrow> 'a) \<Rightarrow> 'a \<Rightarrow> 'a" where
  "EachTag c tagF s =
     (let (tags, tagGroups) = eachTagCollect c [] Map.empty
      in eachTagEmit tagF tagGroups tags s)"

text \<open>The sequence of calls \<open>tagF(tag, values)\<close> that \<open>EachTag\<close> makes, recorded by a callback.\<close>

definition tagCalls :: "RawValues \<Rightarrow> (string \<times> RawValues) list" where
  "tagCalls c = EachTag c (\<lambda>tag vals acc. acc @ [(tag, vals)]) []"

text \<open>
  What \<open>tagGroups\<close> holds after the first loop has gone through the candidates
  \<open>pre\<close>: a tag that occurs has the candidates of that tag, in their order; a tag
  that does not occur is absent.
\<close>

definition groupsUpTo :: "RawValues \<Rightarrow> (string \<rightharpoonup> RawValues)" where
  "groupsUpTo pre = (\<lambda>t. if t \<in> Tag ` set pre then Some (filter (\<lambda>v. Tag v = t) pre) else None)"

text \<open>
  The specification's words for the order of the groups: the tags of the input in the
  order in which each is seen first.
\<close>

fun firstSeen :: "'a list \<Rightarrow> 'a list" where
  "firstSeen [] = []"
| "firstSeen (x # xs) = x # filter (\<lambda>y. y \<noteq> x) (firstSeen xs)"

subsection \<open>Values and Merge\<close>

text \<open>
  \<open>ListLong\<close> is a \<open>map[string]bool\<close>. A Go map may be nil (\<open>None\<close> here): reading
  a nil map finds nothing, ranging over it makes no iteration, storing into it panics.
  A map that is not nil is an association list; \<open>range\<close> visits its keys in an order
  Go does not fix, here the order of the list.
\<close>

type_synonym boolMap = "(string \<times> bool) list option"

definition mapLookup :: "boolMap \<Rightarrow> string \<Rightarrow> bool option" where
  "mapLookup m k = (case m of None \<Rightarrow> None | Some kvs \<Rightarrow> map_of kvs k)"

definition mapKeys :: "boolMap \<Rightarrow> string list" where
  "mapKeys m = (case m of None \<Rightarrow> [] | Some kvs \<Rightarrow> map fst kvs)"

definition mapStore :: "boolMap \<Rightarrow> string \<Rightarrow> bool \<Rightarrow> panic + boolMap" where
  "mapStore m k v = (case m of None \<Rightarrow> Inl AssignToNilMap | Some kvs \<Rightarrow> Inr (Some (AList.update k v kvs)))"

text \<open>
  Modelled from the spec: the type \<open>Messages\<close> and its method \<open>Merge\<close> are declared
  in another file of the package. The specification has \<open>messages\<close> as per-tag
  status/error strings, merged by union, existing entries not overwritten.
\<close>

type_synonym Messages = "string \<rightharpoonup> string"

definition Messages_Merge :: "Messages \<Rightarrow> Messages \<Rightarrow> Messages" where
  "Messages_Merge m other = (\<lambda>tag. case m tag of Some msg \<Rightarrow> Some msg | None \<Rightarrow> other tag)"

text \<open>
  Modelled from the spec: the type of \<open>NoSpace\<close> and its method \<open>Merge\<close> are declared
  in another file of the package. The specification has \<open>no_space_tags\<close> as a per-tag
  override merged by union: a tag once marked stays marked.
\<close>

type_synonym NoSpaceTags = "string set"

definition NoSpace_Merge :: "NoSpaceTags \<Rightarrow> NoSpaceTags \<Rightarrow> NoSpaceTags" where
  "NoSpace_Merge m other = m \<union> other"

text \<open>
  The fields of \<open>Values\<close> that \<open>Merge\<close> touches are \<open>Usage\<close>, \<open>NoSpace\<close>,
  \<open>Messages\<close> and \<open>ListLong\<close>; \<open>candidates\<close> is the candidate set of the
  specification's Result Bundle, which \<open>Merge\<close> leaves alone.
\<close>

record Values =
  candidates :: RawValues
  Usage :: string
  NoSpace :: NoSpaceTags
  Messages :: Messages
  ListLong :: boolMap

text \<open>The loop \<open>for tag := range other.ListLong\<close> of \<open>Merge\<close>, over the keys of \<open>other\<close>.\<close>

fun mergeListLong :: "string list \<Rightarrow> boolMap \<Rightarrow> panic + boolMap" where
  "mergeListLong [] m = Inr m"
| "mergeListLong (tag # tags) m =
     (case mapLookup m tag of
        Some found \<Rightarrow> mergeListLong tags m
      | None \<Rightarrow>
          (case mapStore m tag True of
             Inl e \<Rightarrow> Inl e
           | Inr m' \<Rightarrow> mergeListLong tags m'))"

definition Merge :: "Values \<Rightarrow> Values \<Rightarrow> panic + Values" where
  "Merge c other =
     (let c = (if Usage other \<noteq> [] then c\<lparr>Usage := Usage other\<rparr> else c);
          c = c\<lparr>NoSpace := NoSpace_Merge (NoSpace c) (NoSpace other)\<rparr>;
          c = c\<lparr>Messages := Messages_Merge (Messages c) (Messages other)\<rparr>
      in case mergeListLong (mapKeys (ListLong other)) (ListLong c) of
           Inl e \<Rightarrow> Inl e
         | Inr m \<Rightarrow> Inr (c\<lparr>ListLong := m\<rparr>))"

text \<open>
  A sequence of merges into one receiver, \<open>c.Merge(b1); c.Merge(b2); ...\<close>; a panic
  ends it.
\<close>

fun mergeEach :: "Values \<Rightarrow> Values list \<Rightarrow> panic + Values" where
  "mergeEach c [] = Inr c"
| "mergeEach c (other # others) =
     (case Merge c other of Inl e \<Rightarrow> Inl e | Inr c' \<Rightarrow> mergeEach c' others)"

text \<open>
  The specification's words for \<open>usage\<close> after a sequence of merges: the last
  non-empty usage merged, the receiver's own when there is none.
\<close>

definition lastNonEmptyUsage :: "string \<Rightarrow> Values list \<Rightarrow> string" where
  "lastNonEmptyUsage u others =
     (case filter (\<lambda>v. v \<noteq> []) (map Usage others) of [] \<Rightarrow> u | v # vs \<Rightarrow> last (v # vs))"

text \<open>
  Three bundles for a concrete run of \<open>Merge\<close>: a receiver, a bundle whose usage,
  messages and tags overlap with it, and a zero-valued bundle (empty usage, nil map).
\<close>

definition lsBundle :: Values where
  "lsBundle =
     \<lparr>candidates = [], Usage = ''usage: ls'', NoSpace = {},
      Messages = [''files'' \<mapsto> ''no match''],
      ListLong = Some [(''files'', False)]\<rparr>"

definition cdBundle :: Values where
  "cdBundle =
     \<lparr>candidates = [], Usage = ''usage: cd'', NoSpace = {''dirs''},
      Messages = [''files'' \<mapsto> ''unreadable'', ''dirs'' \<mapsto> ''none''],
      ListLong = Some [(''files'', True), (''dirs'', True)]\<rparr>"

definition zeroBundle :: Values where
  "zeroBundle =
     \<lparr>candidates = [], Usage = [], NoSpace = {}, Messages = Map.empty, ListLong = None\<rparr>"

section \<open>The completion commands (completion.go)\<close>

text \<open>
  The commands are methods of \<open>Shell\<close> that read and drive its collaborators:
  \<open>rl.undo\<close>, \<open>rl.completer\<close>, \<open>rl.keymaps\<close>, \<open>rl.line\<close>, \<open>rl.cursor\<close>,
  \<open>rl.hint\<close> and \<open>rl.histories\<close>. Their code is in other packages, so they are
  a parameter here: an environment gives, over a state \<open>'s\<close> of the collaborators,
  the effect of every mutating call and the answer of every query. A command is then
  a function on a shell that holds this state together with the sequence of mutating
  calls made so far.
\<close>

datatype Mode = MenuSelect | Isearch | OtherMode string

text \<open>
  The values of type \<open>completion.Completer\<close> that the commands hand to the engine:
  the method \<open>rl.commandCompletion\<close>, the method \<open>rl.buffers.Complete\<close>, and the
  closure of \<open>historyCompletion\<close> that calls \<open>rl.histories.Complete(forward, filterLine)\<close>.
\<close>

datatype producer = CommandCompletion | BuffersComplete | HistoriesComplete bool bool

datatype call =
    UndoSkipSave
  | CompleterCancel bool bool
  | CompleterSelect int int
  | CompleterSelectTag bool
  | CompleterGenerateWith producer
  | CompleterIsearchStart string bool
  | CompleterAutocompleteForce
  | CompleterResetForce
  | KeymapsSetLocal Mode
  | LineCutRune int
  | HistoriesCycle bool
  | HintSet string
  | HintReset

text \<open>The calls that go to the completion engine \<open>rl.completer\<close>.\<close>

fun isEngineCall :: "call \<Rightarrow> bool" where
  "isEngineCall (CompleterCancel a b) = True"
| "isEngineCall (CompleterSelect a b) = True"
| "isEngineCall (CompleterSelectTag a) = True"
| "isEngineCall (CompleterGenerateWith p) = True"
| "isEngineCall (CompleterIsearchStart n h) = True"
| "isEngineCall CompleterAutocompleteForce = True"
| "isEngineCall CompleterResetForce = True"
| "isEngineCall c = False"

text \<open>
  \<open>historiesCurrentIsNil\<close> is the test \<open>rl.histories.Current() == nil\<close>. The three
  colour strings are the constants \<open>color.Dim\<close>, \<open>color.FgRed\<close> and \<open>color.Reset\<close>.
\<close>

record 's env =
  perform :: "call \<Rightarrow> 's \<Rightarrow> 's"
  completerIsActive :: "'s \<Rightarrow> bool"
  completerIsInserting :: "'s \<Rightarrow> bool"
  completerAutoCompleting :: "'s \<Rightarrow> bool"
  keymapsLocal :: "'s \<Rightarrow> Mode"
  cursorPos :: "'s \<Rightarrow> int"
  lineLen :: "'s \<Rightarrow> int"
  historiesOnLastSource :: "'s \<Rightarrow> bool"
  historiesCurrentIsNil :: "'s \<Rightarrow> bool"
  historiesName :: "'s \<Rightarrow> string"
  colorDim :: string
  colorFgRed :: string
  colorReset :: string

record 's Shell =
  world :: 's
  trace :: "call list"

definition invoke :: "'s env \<Rightarrow> call \<Rightarrow> 's Shell \<Rightarrow> 's Shell" where
  "invoke E c sh = sh\<lparr>world := perform E c (world sh), trace := trace sh @ [c]\<rparr>"

text \<open>Several calls in a row, with nothing in between.\<close>

fun invokeAll :: "'s env \<Rightarrow> call list \<Rightarrow> 's Shell \<Rightarrow> 's Shell" where
  "invokeAll E [] sh = sh"
| "invokeAll E (c # cs) sh = invokeAll E cs (invoke E c sh)"

subsection \<open>Utilities\<close>

definition startMenuComplete :: "'s env \<Rightarrow> producer \<Rightarrow> 's Shell \<Rightarrow> 's Shell" where
  "startMenuComplete E completer sh =
     (let sh = invoke E UndoSkipSave sh;
          sh = invoke E (KeymapsSetLocal MenuSelect) sh
      in invoke E (CompleterGenerateWith completer) sh)"

subsection \<open>Commands\<close>

definition completeWord :: "'s env \<Rightarrow> 's Shell \<Rightarrow> 's Shell" where
  "completeWord E sh =
     (let sh = invoke E UndoSkipSave sh;
          sh = (if \<not> completerIsActive E (world sh)
                then startMenuComplete E CommandCompletion sh else sh)
      in invoke E (CompleterSelect 1 0) sh)"

definition possibleCompletions :: "'s env \<Rightarrow> 's Shell \<Rightarrow> 's Shell" where
  "possibleCompletions E sh =
     (let sh = invoke E UndoSkipSave sh;
          sh = invoke E (CompleterCancel False False) sh;
          sh = invoke E (KeymapsSetLocal MenuSelect) sh
      in invoke E (CompleterGenerateWith CommandCompletion) sh)"

definition insertCompletions :: "'s env \<Rightarrow> 's Shell \<Rightarrow> 's Shell" where
  "insertCompletions E sh = sh"

definition menuComplete :: "'s env \<Rightarrow> 's Shell \<Rightarrow> 's Shell" where
  "menuComplete E sh =
     (let sh = invoke E UndoSkipSave sh
      in if \<not> completerIsActive E (world sh)
         then startMenuComplete E CommandCompletion sh
         else invoke E (CompleterSelect 1 0) sh)"

definition deleteCharOrList :: "'s env \<Rightarrow> 's Shell \<Rightarrow> 's Shell" where
  "deleteCharOrList E sh =
     (if cursorPos E (world sh) < lineLen E (world sh)
      then invoke E (LineCutRune (cursorPos E (world sh))) sh
      else possibleCompletions E sh)"

definition menuCompleteBackward :: "'s env \<Rightarrow> 's Shell \<Rightarrow> 's Shell" where
  "menuCompleteBackward E sh =
     (let sh = invoke E UndoSkipSave sh
      in if \<not> completerIsActive E (world sh) then sh
         else invoke E (CompleterSelect (- 1) 0) sh)"

definition menuCompleteNextTag :: "'s env \<Rightarrow> 's Shell \<Rightarrow> 's Shell" where
  "menuCompleteNextTag E sh =
     (let sh = invoke E UndoSkipSave sh
      in if \<not> completerIsActive E (world sh) then sh
         else invoke E (CompleterSelectTag True) sh)"

definition menuCompletePrevTag :: "'s env \<Rightarrow> 's Shell \<Rightarrow> 's Shell" where
  "menuCompletePrevTag E sh =
     (let sh = invoke E UndoSkipSave sh
      in if \<not> completerIsActive E (world sh) then sh
         else invoke E (CompleterSelectTag False) sh)"

definition acceptAndMenuComplete :: "'s env \<Rightarrow> 's Shell \<Rightarrow> 's Shell" where
  "acceptAndMenuComplete E sh =
     (let sh = invoke E UndoSkipSave sh
      in if \<not> completerIsActive E (world sh) then sh
         else if \<not> completerIsInserting E (world sh) then sh
         else (let sh = invoke E (CompleterCancel False False) sh
               in invoke E (CompleterSelect 1 0) sh))"

definition viRegistersComplete :: "'s env \<Rightarrow> 's Shell \<Rightarrow> 's Shell" where
  "viRegistersComplete E sh =
     (let sh = invoke E UndoSkipSave sh
      in if \<not> completerIsActive E (world sh)
         then startMenuComplete E BuffersComplete sh
         else invoke E (CompleterSelect 1 0) sh)"

definition menuIncrementalSearch :: "'s env \<Rightarrow> 's Shell \<Rightarrow> 's Shell" where
  "menuIncrementalSearch E sh =
     (let sh = invoke E UndoSkipSave sh;
          sh = (if \<not> completerIsActive E (world sh)
                then invoke E (CompleterGenerateWith CommandCompletion) sh else sh)
      in invoke E (CompleterIsearchStart ''completions'' False) sh)"

text \<open>The map literal of \<open>completionCommands\<close>, from command name to handler.\<close>

definition completionCommands :: "'s env \<Rightarrow> string \<rightharpoonup> ('s Shell \<Rightarrow> 's Shell)" where
  "completionCommands E = map_of
     [(''complete'', completeWord E),
      (''possible-completions'', possibleCompletions E),
      (''insert-completions'', insertCompletions E),
      (''menu-complete'', menuComplete E),
      (''menu-complete-backward'', menuCompleteBackward E),
      (''delete-char-or-list'', deleteCharOrList E),
      (''menu-complete-next-tag'', menuCompleteNextTag E),
      (''menu-complete-prev-tag'', menuCompletePrevTag E),
      (''accept-and-menu-complete'', acceptAndMenuComplete E),
      (''vi-registers-complete'', viRegistersComplete E),
      (''menu-incremental-search'', menuIncrementalSearch E)]"

subsection \<open>historyCompletion\<close>

text \<open>
  The hint of the \<open>default\<close> case:
  \<open>fmt.Sprintf("%s%s%s %s", color.Dim, color.FgRed, "No command history source", color.Reset)\<close>.
\<close>

definition noHistoryHint :: "'s env \<Rightarrow> string" where
  "noHistoryHint E =
     colorDim E @ colorFgRed E @ ''No command history source'' @ '' '' @ colorReset E"

text \<open>
  The body of the \<open>default\<close> case of the \<open>switch\<close>. It is entered directly when the
  first case does not apply, and through \<open>fallthrough\<close> from the first case.
\<close>

definition historyCompletionDefault :: "'s env \<Rightarrow> bool \<Rightarrow> bool \<Rightarrow> bool \<Rightarrow> 's Shell \<Rightarrow> 's Shell" where
  "historyCompletionDefault E forward filterLine incremental sh =
     (if historiesCurrentIsNil E (world sh) then invoke E (HintSet (noHistoryHint E)) sh
      else if incremental then
        (let sh = invoke E (CompleterGenerateWith (HistoriesComplete forward filterLine)) sh
         in invoke E (CompleterIsearchStart (historiesName E (world sh)) True) sh)
      else
        (let sh = startMenuComplete E (HistoriesComplete forward filterLine) sh
         in invoke E CompleterAutocompleteForce sh))"

definition historyCompletion :: "'s env \<Rightarrow> bool \<Rightarrow> bool \<Rightarrow> bool \<Rightarrow> 's Shell \<Rightarrow> 's Shell" where
  "historyCompletion E forward filterLine incremental sh =
     (if keymapsLocal E (world sh) = MenuSelect \<or> keymapsLocal E (world sh) = Isearch
         \<or> completerAutoCompleting E (world sh)
      then
        (if historiesOnLastSource E (world sh) then
           (let sh = invoke E (HistoriesCycle True) sh;
                sh = invoke E CompleterResetForce sh
            in invoke E HintReset sh)
         else
           (let sh = invoke E (HistoriesCycle True) sh
            in historyCompletionDefault E forward filterLine incremental sh))
      else historyCompletionDefault E forward filterLine incremental sh)"

subsection \<open>What a command does first\<close>

text \<open>
  \<open>skipSaveFirst cmd sh\<close>: run from \<open>sh\<close>, the command keeps the calls made before it
  and the first call it makes itself is \<open>rl.undo.SkipSave()\<close>.
\<close>

definition skipSaveFirst :: "('s Shell \<Rightarrow> 's Shell) \<Rightarrow> 's Shell \<Rightarrow> bool" where
  "skipSaveFirst cmd sh =
     (take (length (trace sh) + 1) (trace (cmd sh)) = trace sh @ [UndoSkipSave])"

text \<open>The calls a command makes when run from \<open>sh\<close>.\<close>

definition callsOf :: "('s Shell \<Rightarrow> 's Shell) \<Rightarrow> 's Shell \<Rightarrow> call list" where
  "callsOf cmd sh = drop (length (trace sh)) (trace (cmd sh))"

section \<open>A small world for concrete runs\<close>

text \<open>
  Modelled from the spec: the engine, the keymaps, the line and cursor, the hint, the
  history sources and the undo log are not part of completion.go. This is one
  environment that follows their contracts in the specification (sections 4.2 and 6),
  kept to what the commands can observe; it serves the concrete runs below, while the
  general statements hold for every environment.
\<close>

record sim =
  simLine :: string
  simCursor :: int
  simLocal :: Mode
  simActive :: bool
  simInserting :: bool
  simForced :: bool
  simHint :: string
  simSources :: "string list"
  simSourcePos :: nat
  simSkipSave :: bool

fun simPerform :: "call \<Rightarrow> sim \<Rightarrow> sim" where
  "simPerform UndoSkipSave s = s\<lparr>simSkipSave := True\<rparr>"
| "simPerform (CompleterCancel clearLine restore) s = s\<lparr>simActive := False, simInserting := False\<rparr>"
| "simPerform (CompleterSelect step tagHint) s = (if simActive s then s\<lparr>simInserting := True\<rparr> else s)"
| "simPerform (CompleterSelectTag forward) s = (if simActive s then s\<lparr>simInserting := True\<rparr> else s)"
| "simPerform (CompleterGenerateWith p) s = (if simActive s then s else s\<lparr>simActive := True, simInserting := False\<rparr>)"
| "simPerform (CompleterIsearchStart name history) s = s\<lparr>simLocal := Isearch\<rparr>"
| "simPerform CompleterAutocompleteForce s = s\<lparr>simForced := True\<rparr>"
| "simPerform CompleterResetForce s = s\<lparr>simForced := False\<rparr>"
| "simPerform (KeymapsSetLocal m) s = s\<lparr>simLocal := m\<rparr>"
| "simPerform (LineCutRune i) s = s\<lparr>simLine := take (nat i) (simLine s) @ drop (nat i + 1) (simLine s)\<rparr>"
| "simPerform (HistoriesCycle forward) s =
     (if simSources s = [] then s
      else if forward then s\<lparr>simSourcePos := (simSourcePos s + 1) mod length (simSources s)\<rparr>
      else s\<lparr>simSourcePos := (simSourcePos s + length (simSources s) - 1) mod length (simSources s)\<rparr>)"
| "simPerform (HintSet h) s = s\<lparr>simHint := h\<rparr>"
| "simPerform HintReset s = s\<lparr>simHint := []\<rparr>"

definition simEnv :: "sim env" where
  "simEnv =
     \<lparr>perform = simPerform,
      completerIsActive = simActive,
      completerIsInserting = simInserting,
      completerAutoCompleting = simForced,
      keymapsLocal = simLocal,
      cursorPos = simCursor,
      lineLen = (\<lambda>s. int (length (simLine s))),
      historiesOnLastSource = (\<lambda>s. simSources s \<noteq> [] \<and> simSourcePos s + 1 = length (simSources s)),
      historiesCurrentIsNil = (\<lambda>s. simSources s = []),
      historiesName = (\<lambda>s. if simSourcePos s < length (simSources s)
                            then simSources s ! simSourcePos s else []),
      colorDim = CHR 0x1B # ''[2m'',
      colorFgRed = CHR 0x1B # ''[31m'',
      colorReset = CHR 0x1B # ''[0m''\<rparr>"

text \<open>
  A five-character line with the cursor at position 3, no session open, no history
  source, and no call made yet.
\<close>

definition simStart :: "sim Shell" where
  "simStart =
     \<lparr>world =
        \<lparr>simLine = ''hello'', simCursor = 3, simLocal = OtherMode ''emacs'',
         simActive = False, simInserting = False, simForced = False, simHint = [],
         simSources = [], simSourcePos = 0, simSkipSave = False\<rparr>,
      trace = []\<rparr>"

text \<open>The same with the cursor at the end of the line.\<close>

definition simAtEnd :: "sim Shell" where
  "simAtEnd = simStart\<lparr>world := (world simStart)\<lparr>simCursor := 5\<rparr>\<rparr>"

text \<open>
  A shell in menu-select mode with an open session and two history sources, the
  current one being the source at position \<open>pos\<close>.
\<close>

definition simMenu :: "nat \<Rightarrow> sim Shell" where
  "simMenu pos =
     simStart\<lparr>world := (world simStart)
       \<lparr>simLocal := MenuSelect, simActive := True,
        simSources := [''shell'', ''session''], simSourcePos := pos\<rparr>\<rparr>"

section \<open>Properties of FilterPrefix and Less\<close>

lemmas lower_eval = ToLower_def isASCII_def lowerByte_def isUpperByte_def char_of_def bit_Suc_0_iff

lemma filterPrefixLoop_filter:
  "filterPrefixLoop umap pre mc c acc =
     acc @ filter (\<lambda>raw. HasPrefix (if \<not> mc then ToLower umap (Value raw) else Value raw) pre) c"
  by (induction c arbitrary: acc) (simp_all add: Let_def)

lemma stringLess_iff: "stringLess a b \<longleftrightarrow> a < b"
  by (induction a b rule: stringLess.induct) (auto simp: less_char_def)

text \<open>
  Claim C2, as the specification states it: for two candidates with the values "ABC"
  and "abc", \<open>FilterPrefix("ab", false)\<close> returns both and \<open>FilterPrefix("ab", true)\<close>
  returns neither. The second half fails: "abc" starts with "ab" byte for byte, so the
  case-sensitive filter keeps it.
\<close>

theorem FilterPrefix_ABC_abc_counterexample:
  "\<not> (FilterPrefix (\<lambda>s. s)
         [\<lparr>Value = ''ABC'', Display = ''ABC'', Tag = [], no_space = False\<rparr>,
          \<lparr>Value = ''abc'', Display = ''abc'', Tag = [], no_space = False\<rparr>] ''ab'' False
        = [\<lparr>Value = ''ABC'', Display = ''ABC'', Tag = [], no_space = False\<rparr>,
           \<lparr>Value = ''abc'', Display = ''abc'', Tag = [], no_space = False\<rparr>]
      \<and> FilterPrefix (\<lambda>s. s)
         [\<lparr>Value = ''ABC'', Display = ''ABC'', Tag = [], no_space = False\<rparr>,
          \<lparr>Value = ''abc'', Display = ''abc'', Tag = [], no_space = False\<rparr>] ''ab'' True
        = [])"
  by (simp add: FilterPrefix_def HasPrefix_def Let_def lower_eval)

text \<open>
  Claim C2, amended: for two candidates with the values "ABC" and "abc",
  \<open>FilterPrefix("ab", false)\<close> returns both, in their order, and
  \<open>FilterPrefix("ab", true)\<close> returns exactly the candidate with the value "abc".
  Both values are ASCII, so the result does not depend on the Unicode tables.
\<close>

theorem FilterPrefix_ABC_abc:
  assumes "Value a = ''ABC''" and "Value b = ''abc''"
  shows "FilterPrefix umap [a, b] ''ab'' False = [a, b]
       \<and> FilterPrefix umap [a, b] ''ab'' True = [b]"
  using assms by (simp add: FilterPrefix_def HasPrefix_def lower_eval)

theorem FilterPrefix_ABC_abc_witness:
  "Value \<lparr>Value = ''ABC'', Display = ''ABC'', Tag = [], no_space = False\<rparr> = ''ABC''
   \<and> Value \<lparr>Value = ''abc'', Display = ''abc'', Tag = [], no_space = False\<rparr> = ''abc''
   \<and> FilterPrefix (\<lambda>s. s)
         [\<lparr>Value = ''ABC'', Display = ''ABC'', Tag = [], no_space = False\<rparr>,
          \<lparr>Value = ''abc'', Display = ''abc'', Tag = [], no_space = False\<rparr>] ''ab'' False
        = [\<lparr>Value = ''ABC'', Display = ''ABC'', Tag = [], no_space = False\<rparr>,
           \<lparr>Value = ''abc'', Display = ''abc'', Tag = [], no_space = False\<rparr>]
   \<and> FilterPrefix (\<lambda>s. s)
         [\<lparr>Value = ''ABC'', Display = ''ABC'', Tag = [], no_space = False\<rparr>,
          \<lparr>Value = ''abc'', Display = ''abc'', Tag = [], no_space = False\<rparr>] ''ab'' True
        = [\<lparr>Value = ''abc'', Display = ''abc'', Tag = [], no_space = False\<rparr>]"
  using FilterPrefix_ABC_abc
    [of "\<lparr>Value = ''ABC'', Display = ''ABC'', Tag = [], no_space = False\<rparr>"
        "\<lparr>Value = ''abc'', Display = ''abc'', Tag = [], no_space = False\<rparr>" "\<lambda>s. s"]
  by simp

text \<open>
  Claim C7: \<open>FilterPrefix(p, false)\<close> applied twice with the same \<open>p\<close> gives what one
  application gives, and \<open>FilterPrefix("", matchCase)\<close> returns the set itself for
  either \<open>matchCase\<close>; for every candidate set, every prefix and every behaviour of
  \<open>strings.ToLower\<close> outside ASCII.
\<close>

theorem FilterPrefix_idempotent_and_empty_prefix:
  "FilterPrefix umap (FilterPrefix umap c p False) p False = FilterPrefix umap c p False
   \<and> FilterPrefix umap c [] matchCase = c"
  by (simp add: FilterPrefix_def filterPrefixLoop_filter)

text \<open>
  Claim C3: for indices \<open>i\<close> and \<open>j\<close> in range, \<open>Less(i, j)\<close> returns whether the
  lower-cased \<open>Value\<close> of candidate \<open>i\<close> is lexicographically less than the lower-cased
  \<open>Display\<close> of candidate \<open>j\<close>. The order on the right is the lexicographic order of
  HOL on lists of bytes; the order in \<open>Less\<close> is Go's comparison of strings.
\<close>

theorem Less_value_against_display:
  assumes "0 \<le> i" and "i < int (length x)" and "0 \<le> j" and "j < int (length x)"
  shows "Less umap x i j =
           Inr (ToLower umap (Value (x ! nat i)) < ToLower umap (Display (x ! nat j)))"
  using assms by (simp add: Less_def index_def stringLess_iff)

text \<open>
  A run: the value "Zeta" folds to "zeta", which is not below the other candidate's
  value "alpha" but is below its display "~".
\<close>

theorem Less_value_against_display_witness:
  "(0::int) \<le> 0
   \<and> 0 < int (length [\<lparr>Value = ''Zeta'', Display = ''1'', Tag = [], no_space = False\<rparr>,
                       \<lparr>Value = ''alpha'', Display = ''~'', Tag = [], no_space = False\<rparr>])
   \<and> (0::int) \<le> 1
   \<and> 1 < int (length [\<lparr>Value = ''Zeta'', Display = ''1'', Tag = [], no_space = False\<rparr>,
                       \<lparr>Value = ''alpha'', Display = ''~'', Tag = [], no_space = False\<rparr>])
   \<and> Less (\<lambda>s. s) [\<lparr>Value = ''Zeta'', Display = ''1'', Tag = [], no_space = False\<rparr>,
                   \<lparr>Value = ''alpha'', Display = ''~'', Tag = [], no_space = False\<rparr>] 0 1
       = Inr True"
  using Less_value_against_display
    [of 0 "[\<lparr>Value = ''Zeta'', Display = ''1'', Tag = [], no_space = False\<rparr>,
            \<lparr>Value = ''alpha'', Display = ''~'', Tag = [], no_space = False\<rparr>]" 1 "\<lambda>s. s"]
  by (simp add: lower_eval less_char_def)

section \<open>Properties of EachTag\<close>

lemma set_firstSeen: "set (firstSeen xs) = set xs"
  by (induction xs) auto

lemma distinct_firstSeen: "distinct (firstSeen xs)"
  by (induction xs) (auto simp: set_firstSeen)

lemma firstSeen_snoc:
  "firstSeen (xs @ [x]) = (if x \<in> set xs then firstSeen xs else firstSeen xs @ [x])"
  by (induction xs) auto

lemma filter_absent_tag: "t \<notin> Tag ` set c \<Longrightarrow> filter (\<lambda>v. Tag v = t) c = []"
  by (auto simp: filter_empty_conv)

text \<open>One round of the first loop, for a tag seen before and for a new tag.\<close>

lemma groupsUpTo_seen:
  "Tag val \<in> Tag ` set pre \<Longrightarrow>
     (groupsUpTo pre)(Tag val \<mapsto> groupOf (groupsUpTo pre) (Tag val) @ [val]) = groupsUpTo (pre @ [val])"
  by (rule ext) (auto simp: groupsUpTo_def groupOf_def)

lemma groupsUpTo_new:
  "Tag val \<notin> Tag ` set pre \<Longrightarrow>
     (groupsUpTo pre)(Tag val \<mapsto> groupOf ((groupsUpTo pre)(Tag val \<mapsto> [])) (Tag val) @ [val])
       = groupsUpTo (pre @ [val])"
  by (rule ext) (auto simp: groupsUpTo_def groupOf_def filter_absent_tag)

lemma eachTagCollect_invariant:
  "eachTagCollect rest (firstSeen (map Tag pre)) (groupsUpTo pre)
     = (firstSeen (map Tag (pre @ rest)), groupsUpTo (pre @ rest))"
proof (induction rest arbitrary: pre)
  case Nil
  then show ?case by simp
next
  case (Cons val rest)
  have "eachTagCollect (val # rest) (firstSeen (map Tag pre)) (groupsUpTo pre)
          = eachTagCollect rest (firstSeen (map Tag (pre @ [val]))) (groupsUpTo (pre @ [val]))"
  proof (cases "Tag val \<in> Tag ` set pre")
    case True
    then obtain g where "groupsUpTo pre (Tag val) = Some g"
      by (simp add: groupsUpTo_def)
    with True show ?thesis
      by (simp add: firstSeen_snoc groupsUpTo_seen del: fun_upd_apply)
  next
    case False
    then have "groupsUpTo pre (Tag val) = None"
      by (simp add: groupsUpTo_def)
    with False show ?thesis
      by (simp add: firstSeen_snoc groupsUpTo_new del: fun_upd_apply)
  qed
  then show ?case using Cons.IH [of "pre @ [val]"] by simp
qed

lemma eachTagCollect_all:
  "eachTagCollect c [] Map.empty = (firstSeen (map Tag c), groupsUpTo c)"
proof -
  have "groupsUpTo [] = Map.empty" by (simp add: groupsUpTo_def)
  then show ?thesis
    using eachTagCollect_invariant [of c "[]"] by simp
qed

lemma groupOf_groupsUpTo: "groupOf (groupsUpTo c) t = filter (\<lambda>v. Tag v = t) c"
  by (simp add: groupOf_def groupsUpTo_def filter_absent_tag)

lemma eachTagEmit_record:
  "eachTagEmit (\<lambda>tag vals acc. acc @ [(tag, vals)]) tagGroups tags acc
     = acc @ map (\<lambda>tag. (tag, groupOf tagGroups tag)) tags"
  by (induction tags arbitrary: acc) simp_all

lemma eachTagEmit_fold:
  "eachTagEmit tagF tagGroups tags s = fold (\<lambda>tag. tagF tag (groupOf tagGroups tag)) tags s"
  by (induction tags arbitrary: s) simp_all

lemma tagCalls_eq:
  "tagCalls c = map (\<lambda>t. (t, filter (\<lambda>v. Tag v = t) c)) (firstSeen (map Tag c))"
  by (simp add: tagCalls_def EachTag_def eachTagCollect_all eachTagEmit_record groupOf_groupsUpTo)

lemma EachTag_tagCalls:
  "EachTag c tagF s = fold (\<lambda>(tag, vals). tagF tag vals) (tagCalls c) s"
  by (simp add: EachTag_def eachTagCollect_all eachTagEmit_fold tagCalls_eq fold_map comp_def
      groupOf_groupsUpTo)

lemma mset_concat_groups:
  "distinct ts \<Longrightarrow>
     mset (concat (map (\<lambda>t. filter (\<lambda>v. f v = t) c) ts)) = filter_mset (\<lambda>v. f v \<in> set ts) (mset c)"
proof (induction ts)
  case Nil
  then show ?case by simp
next
  case (Cons t ts)
  have "filter_mset (\<lambda>v. f v \<in> set (t # ts)) (mset c)
          = filter_mset (\<lambda>v. f v = t) (mset c) + filter_mset (\<lambda>v. f v \<in> set ts) (mset c)"
    using Cons.prems by (induction c) auto
  with Cons show ?case by simp
qed

text \<open>
  Claim C6: for every candidate sequence \<open>c\<close> and every callback, \<open>EachTag\<close> makes the
  calls \<open>tagCalls c\<close> in order, and these are fixed by \<open>c\<close>: the tags are those of \<open>c\<close>
  in first-seen order, each once; the group of a tag is the candidates of \<open>c\<close> with
  that tag, in their order in \<open>c\<close> (so a candidate is in the group of its own tag and
  in no other); and the groups, flattened in the order of the calls, hold every
  candidate of \<open>c\<close> as often as \<open>c\<close> does.
\<close>

theorem EachTag_groups:
  "EachTag c tagF s = fold (\<lambda>(tag, vals). tagF tag vals) (tagCalls c) s
   \<and> map fst (tagCalls c) = firstSeen (map Tag c)
   \<and> distinct (map fst (tagCalls c))
   \<and> map snd (tagCalls c) = map (\<lambda>t. filter (\<lambda>v. Tag v = t) c) (firstSeen (map Tag c))
   \<and> mset (concat (map snd (tagCalls c))) = mset c"
proof -
  have "filter (\<lambda>v. Tag v \<in> Tag ` set c) c = c"
    by (simp add: filter_id_conv)
  then have "filter_mset (\<lambda>v. Tag v \<in> Tag ` set c) (mset c) = mset c"
    by (simp flip: mset_filter)
  then have "mset (concat (map (\<lambda>t. filter (\<lambda>v. Tag v = t) c) (firstSeen (map Tag c)))) = mset c"
    using mset_concat_groups [OF distinct_firstSeen, of Tag c "map Tag c"]
    by (simp add: set_firstSeen)
  then show ?thesis
    using EachTag_tagCalls [of c tagF s]
    by (simp add: tagCalls_eq comp_def distinct_firstSeen)
qed

section \<open>Properties of Merge\<close>

lemma mapStore_lookup:
  "mapStore m k v = Inr m' \<Longrightarrow> mapLookup m' t = (if t = k then Some v else mapLookup m t)"
  by (auto simp: mapStore_def mapLookup_def update_conv' split: option.splits)

lemma mapStore_not_nil: "mapStore m k v = Inr m' \<Longrightarrow> m' \<noteq> None"
  by (auto simp: mapStore_def split: option.splits)

lemma mapStore_total: "m \<noteq> None \<Longrightarrow> \<exists>m'. mapStore m k v = Inr m'"
  by (auto simp: mapStore_def)

lemma mergeListLong_keeps:
  "mergeListLong tags m = Inr m' \<Longrightarrow> mapLookup m t = Some b \<Longrightarrow> mapLookup m' t = Some b"
proof (induction tags arbitrary: m)
  case Nil
  then show ?case by simp
next
  case (Cons tag tags)
  show ?case
  proof (cases "mapLookup m tag")
    case None
    with Cons.prems(1) obtain m1 where
      st: "mapStore m tag True = Inr m1" and rest: "mergeListLong tags m1 = Inr m'"
      by (auto split: sum.splits)
    from None Cons.prems(2) have "t \<noteq> tag" by auto
    with st Cons.prems(2) have "mapLookup m1 t = Some b"
      by (simp add: mapStore_lookup)
    with rest show ?thesis by (rule Cons.IH)
  next
    case (Some found)
    with Cons.prems(1) have "mergeListLong tags m = Inr m'" by simp
    then show ?thesis using Cons.prems(2) by (rule Cons.IH)
  qed
qed

lemma mergeListLong_total:
  "m \<noteq> None \<Longrightarrow> \<exists>m'. mergeListLong tags m = Inr m' \<and> m' \<noteq> None"
proof (induction tags arbitrary: m)
  case Nil
  then show ?case by simp
next
  case (Cons tag tags)
  show ?case
  proof (cases "mapLookup m tag")
    case None
    from Cons.prems obtain m1 where st: "mapStore m tag True = Inr m1"
      using mapStore_total by blast
    then have "m1 \<noteq> None" by (rule mapStore_not_nil)
    then show ?thesis using Cons.IH [of m1] None st by simp
  next
    case (Some found)
    then show ?thesis using Cons.IH [OF Cons.prems] by simp
  qed
qed

lemma Merge_result:
  assumes "Merge c other = Inr c'"
  shows "Usage c' = (if Usage other \<noteq> [] then Usage other else Usage c)"
    and "Messages c' = Messages_Merge (Messages c) (Messages other)"
    and "NoSpace c' = NoSpace_Merge (NoSpace c) (NoSpace other)"
    and "candidates c' = candidates c"
    and "mergeListLong (mapKeys (ListLong other)) (ListLong c) = Inr (ListLong c')"
  using assms by (auto simp: Merge_def Let_def split: sum.splits if_splits)

lemma Merge_total:
  "ListLong c \<noteq> None \<Longrightarrow> \<exists>c'. Merge c other = Inr c' \<and> ListLong c' \<noteq> None"
  using mergeListLong_total [of "ListLong c" "mapKeys (ListLong other)"]
  by (auto simp: Merge_def Let_def)

lemma mergeEach_total:
  "ListLong c \<noteq> None \<Longrightarrow> \<exists>c'. mergeEach c others = Inr c'"
proof (induction others arbitrary: c)
  case Nil
  then show ?case by simp
next
  case (Cons other others)
  from Merge_total [OF Cons.prems] obtain c1 where
    "Merge c other = Inr c1" and "ListLong c1 \<noteq> None" by blast
  then show ?case using Cons.IH [of c1] by simp
qed

lemma Messages_Merge_keeps: "m tag = Some msg \<Longrightarrow> Messages_Merge m other tag = Some msg"
  by (simp add: Messages_Merge_def)

lemma lastNonEmptyUsage_Cons:
  "lastNonEmptyUsage u (other # others)
     = lastNonEmptyUsage (if Usage other \<noteq> [] then Usage other else u) others"
  by (simp add: lastNonEmptyUsage_def split: list.splits)

lemma mergeEach_keeps:
  assumes "mergeEach c others = Inr c'"
  shows "Messages c tag = Some msg \<Longrightarrow> Messages c' tag = Some msg"
    and "mapLookup (ListLong c) tag = Some b \<Longrightarrow> mapLookup (ListLong c') tag = Some b"
    and "Usage c' = lastNonEmptyUsage (Usage c) others"
  using assms
proof (induction others arbitrary: c)
  case Nil
  { case 1 then show ?case by simp }
  { case 2 then show ?case by simp }
  { case 3 then show ?case by (simp add: lastNonEmptyUsage_def) }
next
  case (Cons other others)
  { case 1
    then obtain c1 where m: "Merge c other = Inr c1" and r: "mergeEach c1 others = Inr c'"
      by (auto split: sum.splits)
    from 1 have "Messages c1 tag = Some msg"
      by (simp add: Merge_result(2) [OF m] Messages_Merge_keeps)
    then show ?case using r by (rule Cons.IH(1)) }
  { case 2
    then obtain c1 where m: "Merge c other = Inr c1" and r: "mergeEach c1 others = Inr c'"
      by (auto split: sum.splits)
    from 2 have "mapLookup (ListLong c1) tag = Some b"
      using mergeListLong_keeps [OF Merge_result(5) [OF m]] by simp
    then show ?case using r by (rule Cons.IH(2)) }
  { case 3
    then obtain c1 where m: "Merge c other = Inr c1" and r: "mergeEach c1 others = Inr c'"
      by (auto split: sum.splits)
    show ?case
      using Cons.IH(3) [OF r] by (simp add: Merge_result(1) [OF m] lastNonEmptyUsage_Cons) }
qed

text \<open>
  The one way \<open>Merge\<close> fails: the receiver's \<open>ListLong\<close> is nil and \<open>other\<close> has a
  tag to add, so the store \<open>c.ListLong[tag] = true\<close> panics.
\<close>

lemma Merge_nil_ListLong:
  "ListLong c = None \<Longrightarrow> mapKeys (ListLong other) = tag # tags \<Longrightarrow> Merge c other = Inl AssignToNilMap"
  by (simp add: Merge_def Let_def mapLookup_def mapStore_def)

text \<open>
  Claim C5: under repeated \<open>Merge\<close> into one receiver, every entry of \<open>Messages\<close> and
  every entry of \<open>ListLong\<close> that is present before is present after, with the same
  content, and \<open>Usage\<close> is the last non-empty usage merged (the receiver's own when
  every merged usage is empty). The sequence of merges runs to its end whenever the
  receiver's \<open>ListLong\<close> is not nil. The part on \<open>Messages\<close> rests on
  \<open>Messages_Merge\<close>, which follows the specification.
\<close>

theorem mergeEach_grows:
  "(ListLong c \<noteq> None \<longrightarrow> (\<exists>r. mergeEach c others = Inr r))
   \<and> (mergeEach c others = Inr c' \<longrightarrow>
        (\<forall>tag msg. Messages c tag = Some msg \<longrightarrow> Messages c' tag = Some msg)
      \<and> (\<forall>tag b. mapLookup (ListLong c) tag = Some b \<longrightarrow> mapLookup (ListLong c') tag = Some b)
      \<and> Usage c' = lastNonEmptyUsage (Usage c) others)"
  using mergeEach_total [of c others] mergeEach_keeps [of c others c']
  by blast

text \<open>
  A run: \<open>cdBundle\<close> and then \<open>zeroBundle\<close> are merged into \<open>lsBundle\<close>. The message
  and the flag of the tag "files" stay as they were, those of "dirs" are added, and
  the usage is that of \<open>cdBundle\<close>, the last one that is not empty.
\<close>

theorem mergeEach_grows_witness:
  "ListLong lsBundle \<noteq> None
   \<and> mergeEach lsBundle [cdBundle, zeroBundle]
       = Inr (projr (mergeEach lsBundle [cdBundle, zeroBundle]))
   \<and> Messages lsBundle ''files'' = Some ''no match''
   \<and> Messages (projr (mergeEach lsBundle [cdBundle, zeroBundle])) ''files'' = Some ''no match''
   \<and> Messages (projr (mergeEach lsBundle [cdBundle, zeroBundle])) ''dirs'' = Some ''none''
   \<and> mapLookup (ListLong lsBundle) ''files'' = Some False
   \<and> mapLookup (ListLong (projr (mergeEach lsBundle [cdBundle, zeroBundle]))) ''files'' = Some False
   \<and> mapLookup (ListLong (projr (mergeEach lsBundle [cdBundle, zeroBundle]))) ''dirs'' = Some True
   \<and> Usage (projr (mergeEach lsBundle [cdBundle, zeroBundle])) = ''usage: cd''"
proof -
  have run: "mergeEach lsBundle [cdBundle, zeroBundle]
      = Inr (projr (mergeEach lsBundle [cdBundle, zeroBundle]))"
    by (simp add: Merge_def Let_def mapKeys_def mapLookup_def mapStore_def
        lsBundle_def cdBundle_def zeroBundle_def)
  have before: "ListLong lsBundle \<noteq> None" "Messages lsBundle ''files'' = Some ''no match''"
      "mapLookup (ListLong lsBundle) ''files'' = Some False"
    by (simp_all add: lsBundle_def mapLookup_def)
  have added: "Messages (projr (mergeEach lsBundle [cdBundle, zeroBundle])) ''dirs'' = Some ''none''"
      "mapLookup (ListLong (projr (mergeEach lsBundle [cdBundle, zeroBundle]))) ''dirs'' = Some True"
    by (simp_all add: Merge_def Let_def mapKeys_def mapLookup_def mapStore_def Messages_Merge_def
        lsBundle_def cdBundle_def zeroBundle_def)
  have usage: "lastNonEmptyUsage (Usage lsBundle) [cdBundle, zeroBundle] = ''usage: cd''"
    by (simp add: lastNonEmptyUsage_def lsBundle_def cdBundle_def zeroBundle_def)
  show ?thesis
    using mergeEach_grows
      [of lsBundle "[cdBundle, zeroBundle]" "projr (mergeEach lsBundle [cdBundle, zeroBundle])"]
      run before added usage
    by simp
qed

section \<open>Properties of the completion commands\<close>

lemma trace_invoke: "trace (invoke E c sh) = trace sh @ [c]"
  by (simp add: invoke_def)

lemma world_invoke: "world (invoke E c sh) = perform E c (world sh)"
  by (simp add: invoke_def)

lemma trace_invokeAll: "trace (invokeAll E cs sh) = trace sh @ cs"
  by (induction cs arbitrary: sh) (simp_all add: trace_invoke)

lemma startMenuComplete_calls:
  "startMenuComplete E p sh
     = invokeAll E [UndoSkipSave, KeymapsSetLocal MenuSelect, CompleterGenerateWith p] sh"
  by (simp add: startMenuComplete_def)

lemma possibleCompletions_calls:
  "possibleCompletions E sh
     = invokeAll E [UndoSkipSave, CompleterCancel False False, KeymapsSetLocal MenuSelect,
         CompleterGenerateWith CommandCompletion] sh"
  by (simp add: possibleCompletions_def)

lemmas command_defs = completeWord_def possibleCompletions_def menuComplete_def
  menuCompleteBackward_def menuCompleteNextTag_def menuCompletePrevTag_def
  acceptAndMenuComplete_def viRegistersComplete_def menuIncrementalSearch_def
  startMenuComplete_def

lemma skipSaveFirst_commands:
  "skipSaveFirst (completeWord E) sh"
  "skipSaveFirst (possibleCompletions E) sh"
  "skipSaveFirst (menuComplete E) sh"
  "skipSaveFirst (menuCompleteBackward E) sh"
  "skipSaveFirst (menuCompleteNextTag E) sh"
  "skipSaveFirst (menuCompletePrevTag E) sh"
  "skipSaveFirst (acceptAndMenuComplete E) sh"
  "skipSaveFirst (viRegistersComplete E) sh"
  "skipSaveFirst (menuIncrementalSearch E) sh"
  by (simp_all add: skipSaveFirst_def command_defs Let_def trace_invoke)

lemma skipSaveFirst_deleteCharOrList:
  "skipSaveFirst (deleteCharOrList E) sh \<longleftrightarrow> \<not> cursorPos E (world sh) < lineLen E (world sh)"
  by (simp add: skipSaveFirst_def deleteCharOrList_def possibleCompletions_def Let_def trace_invoke)

lemma skipSaveFirst_insertCompletions: "\<not> skipSaveFirst (insertCompletions E) sh"
  by (simp add: skipSaveFirst_def insertCompletions_def)

text \<open>The registry has the eleven command names of the map literal, and no other.\<close>

lemma completionCommands_names:
  "dom (completionCommands E) =
     {''complete'', ''possible-completions'', ''insert-completions'', ''menu-complete'',
      ''menu-complete-backward'', ''delete-char-or-list'', ''menu-complete-next-tag'',
      ''menu-complete-prev-tag'', ''accept-and-menu-complete'', ''vi-registers-complete'',
      ''menu-incremental-search''}"
  unfolding completionCommands_def dom_map_of_conv_image_fst by simp

lemmas sim_eval = simEnv_def simStart_def simAtEnd_def simMenu_def invoke_def Let_def

text \<open>
  Claim C1, as the specification states it: each of the eleven registered commands
  calls \<open>rl.undo.SkipSave()\<close> first, on every path. It fails for two of them:
  \<open>insertCompletions\<close> has an empty body and calls nothing, and \<open>deleteCharOrList\<close>
  with the cursor before the end of the line only cuts the rune under the cursor.
\<close>

theorem completionCommands_skipSaveFirst_counterexample:
  "completionCommands simEnv ''insert-completions'' = Some (insertCompletions simEnv)
   \<and> trace (insertCompletions simEnv simStart) = []
   \<and> \<not> skipSaveFirst (insertCompletions simEnv) simStart
   \<and> completionCommands simEnv ''delete-char-or-list'' = Some (deleteCharOrList simEnv)
   \<and> trace (deleteCharOrList simEnv simStart) = [LineCutRune 3]
   \<and> \<not> skipSaveFirst (deleteCharOrList simEnv) simStart"
  by (simp add: completionCommands_def skipSaveFirst_def insertCompletions_def
      deleteCharOrList_def sim_eval)

text \<open>
  Claim C1, amended: every registered command other than insert-completions and
  delete-char-or-list calls \<open>rl.undo.SkipSave()\<close> at entry, on every path, before
  any other call to a collaborator; delete-char-or-list does so exactly when the
  cursor is not strictly before the end of the line (it then runs
  possible-completions); insert-completions never does.
\<close>

theorem completionCommands_skipSaveFirst:
  assumes "completionCommands E name = Some cmd"
  shows "(name \<noteq> ''insert-completions'' \<and> name \<noteq> ''delete-char-or-list'' \<longrightarrow> skipSaveFirst cmd sh)
       \<and> (name = ''delete-char-or-list'' \<longrightarrow>
            (skipSaveFirst cmd sh \<longleftrightarrow> \<not> cursorPos E (world sh) < lineLen E (world sh)))
       \<and> (name = ''insert-completions'' \<longrightarrow> \<not> skipSaveFirst cmd sh)"
  using assms
  by (auto simp: completionCommands_def skipSaveFirst_commands skipSaveFirst_deleteCharOrList
      skipSaveFirst_insertCompletions split: if_splits)

theorem completionCommands_skipSaveFirst_witness:
  "completionCommands simEnv ''complete'' = Some (completeWord simEnv)
   \<and> skipSaveFirst (completeWord simEnv) simStart
   \<and> trace (completeWord simEnv simStart)
       = [UndoSkipSave, UndoSkipSave, KeymapsSetLocal MenuSelect,
          CompleterGenerateWith CommandCompletion, CompleterSelect 1 0]
   \<and> completionCommands simEnv ''delete-char-or-list'' = Some (deleteCharOrList simEnv)
   \<and> \<not> cursorPos simEnv (world simAtEnd) < lineLen simEnv (world simAtEnd)
   \<and> skipSaveFirst (deleteCharOrList simEnv) simAtEnd
   \<and> cursorPos simEnv (world simStart) < lineLen simEnv (world simStart)
   \<and> \<not> skipSaveFirst (deleteCharOrList simEnv) simStart
   \<and> completionCommands simEnv ''insert-completions'' = Some (insertCompletions simEnv)
   \<and> \<not> skipSaveFirst (insertCompletions simEnv) simStart"
proof -
  have c: "completionCommands simEnv ''complete'' = Some (completeWord simEnv)"
    and d: "completionCommands simEnv ''delete-char-or-list'' = Some (deleteCharOrList simEnv)"
    and i: "completionCommands simEnv ''insert-completions'' = Some (insertCompletions simEnv)"
    by (simp_all add: completionCommands_def)
  have t: "trace (completeWord simEnv simStart)
       = [UndoSkipSave, UndoSkipSave, KeymapsSetLocal MenuSelect,
          CompleterGenerateWith CommandCompletion, CompleterSelect 1 0]"
    by (simp add: completeWord_def startMenuComplete_def sim_eval)
  have p: "\<not> cursorPos simEnv (world simAtEnd) < lineLen simEnv (world simAtEnd)"
      "cursorPos simEnv (world simStart) < lineLen simEnv (world simStart)"
    by (simp_all add: sim_eval)
  show ?thesis
    using completionCommands_skipSaveFirst [OF c, of simStart]
      completionCommands_skipSaveFirst [OF d, of simAtEnd]
      completionCommands_skipSaveFirst [OF d, of simStart]
      completionCommands_skipSaveFirst [OF i, of simStart]
      c d i t p
    by simp
qed

text \<open>
  Claim C8: with the cursor strictly before the end of the line, delete-char-or-list
  makes one call, \<open>rl.line.CutRune\<close> at the cursor position, and none to the
  completion engine; otherwise it is possible-completions, whose calls are
  \<open>SkipSave\<close>, \<open>Cancel(false, false)\<close>, \<open>SetLocal(MenuSelect)\<close> and
  \<open>GenerateWith(rl.commandCompletion)\<close>, in this order.
\<close>

theorem deleteCharOrList_dispatch:
  "(cursorPos E (world sh) < lineLen E (world sh) \<longrightarrow>
      deleteCharOrList E sh = invokeAll E [LineCutRune (cursorPos E (world sh))] sh
      \<and> callsOf (deleteCharOrList E) sh = [LineCutRune (cursorPos E (world sh))])
   \<and> (\<not> cursorPos E (world sh) < lineLen E (world sh) \<longrightarrow>
      deleteCharOrList E sh = possibleCompletions E sh
      \<and> possibleCompletions E sh
          = invokeAll E [UndoSkipSave, CompleterCancel False False, KeymapsSetLocal MenuSelect,
              CompleterGenerateWith CommandCompletion] sh
      \<and> callsOf (deleteCharOrList E) sh
          = [UndoSkipSave, CompleterCancel False False, KeymapsSetLocal MenuSelect,
             CompleterGenerateWith CommandCompletion])"
  by (simp add: deleteCharOrList_def possibleCompletions_calls callsOf_def trace_invoke)

text \<open>
  Two runs on a line of five characters: with the cursor at 3 the character at index 3
  is cut and no session is opened; with the cursor at 5 the line is kept and a session
  is opened.
\<close>

theorem deleteCharOrList_dispatch_witness:
  "cursorPos simEnv (world simStart) = 3 \<and> lineLen simEnv (world simStart) = 5
   \<and> callsOf (deleteCharOrList simEnv) simStart = [LineCutRune 3]
   \<and> simLine (world (deleteCharOrList simEnv simStart)) = ''helo''
   \<and> simActive (world (deleteCharOrList simEnv simStart)) = False
   \<and> cursorPos simEnv (world simAtEnd) = 5 \<and> lineLen simEnv (world simAtEnd) = 5
   \<and> deleteCharOrList simEnv simAtEnd = possibleCompletions simEnv simAtEnd
   \<and> callsOf (deleteCharOrList simEnv) simAtEnd
        = [UndoSkipSave, CompleterCancel False False, KeymapsSetLocal MenuSelect,
           CompleterGenerateWith CommandCompletion]
   \<and> simLine (world (deleteCharOrList simEnv simAtEnd)) = ''hello''
   \<and> simActive (world (deleteCharOrList simEnv simAtEnd)) = True"
proof -
  have p: "cursorPos simEnv (world simStart) = 3" "lineLen simEnv (world simStart) = 5"
      "cursorPos simEnv (world simAtEnd) = 5" "lineLen simEnv (world simAtEnd) = 5"
    by (simp_all add: sim_eval)
  have w: "simLine (world (deleteCharOrList simEnv simStart)) = ''helo''"
      "simActive (world (deleteCharOrList simEnv simStart)) = False"
      "simLine (world (deleteCharOrList simEnv simAtEnd)) = ''hello''"
      "simActive (world (deleteCharOrList simEnv simAtEnd)) = True"
    by (simp_all add: deleteCharOrList_def possibleCompletions_def sim_eval)
  show ?thesis
    using deleteCharOrList_dispatch [of simEnv simStart]
      deleteCharOrList_dispatch [of simEnv simAtEnd] p w
    by simp
qed

text \<open>
  Claim C10: the command registered as "insert-completions" does nothing in any state:
  the shell it returns is the shell it was given (no call to the engine, the line, the
  keymaps or the hint), and it does not call \<open>rl.undo.SkipSave()\<close> either.
\<close>

theorem insertCompletions_noop:
  "completionCommands E ''insert-completions'' = Some (insertCompletions E)
   \<and> insertCompletions E sh = sh
   \<and> callsOf (insertCompletions E) sh = []
   \<and> \<not> skipSaveFirst (insertCompletions E) sh"
  by (simp add: completionCommands_def insertCompletions_def callsOf_def skipSaveFirst_def)

text \<open>
  Claim C9: when the local keymap is neither menu-select nor isearch, no forced session
  is open and \<open>rl.histories.Current()\<close> is nil, history-completion makes one call:
  it sets the hint to \<open>color.Dim\<close>, \<open>color.FgRed\<close>, the text
  "No command history source", a space and \<open>color.Reset\<close>. It makes no call to the
  engine; so, the hint display not acting on the session, the session is active after
  exactly when it was before, and stays inactive.
\<close>

theorem historyCompletion_no_source:
  assumes "keymapsLocal E (world sh) \<noteq> MenuSelect"
    and "keymapsLocal E (world sh) \<noteq> Isearch"
    and "\<not> completerAutoCompleting E (world sh)"
    and "historiesCurrentIsNil E (world sh)"
  shows "historyCompletion E forward filterLine incremental sh
           = invokeAll E
               [HintSet (colorDim E @ colorFgRed E @ ''No command history source'' @ '' '' @ colorReset E)] sh
       \<and> callsOf (historyCompletion E forward filterLine incremental) sh
           = [HintSet (colorDim E @ colorFgRed E @ ''No command history source'' @ '' '' @ colorReset E)]
       \<and> filter isEngineCall (callsOf (historyCompletion E forward filterLine incremental) sh) = []
       \<and> ((\<forall>h s. completerIsActive E (perform E (HintSet h) s) = completerIsActive E s) \<longrightarrow>
            completerIsActive E (world (historyCompletion E forward filterLine incremental sh))
              = completerIsActive E (world sh))"
  using assms
  by (simp add: historyCompletion_def historyCompletionDefault_def noHistoryHint_def callsOf_def
      trace_invoke world_invoke)

theorem historyCompletion_no_source_witness:
  "keymapsLocal simEnv (world simStart) \<noteq> MenuSelect
   \<and> keymapsLocal simEnv (world simStart) \<noteq> Isearch
   \<and> \<not> completerAutoCompleting simEnv (world simStart)
   \<and> historiesCurrentIsNil simEnv (world simStart)
   \<and> (\<forall>h s. completerIsActive simEnv (perform simEnv (HintSet h) s) = completerIsActive simEnv s)
   \<and> callsOf (historyCompletion simEnv True False False) simStart
        = [HintSet (CHR 0x1B # ''[2m'' @ CHR 0x1B # ''[31m'' @ ''No command history source ''
             @ CHR 0x1B # ''[0m'')]
   \<and> simHint (world (historyCompletion simEnv True False False simStart))
        = CHR 0x1B # ''[2m'' @ CHR 0x1B # ''[31m'' @ ''No command history source ''
             @ CHR 0x1B # ''[0m''
   \<and> \<not> completerIsActive simEnv (world simStart)
   \<and> \<not> completerIsActive simEnv (world (historyCompletion simEnv True False False simStart))"
proof -
  have pre: "keymapsLocal simEnv (world simStart) \<noteq> MenuSelect"
      "keymapsLocal simEnv (world simStart) \<noteq> Isearch"
      "\<not> completerAutoCompleting simEnv (world simStart)"
      "historiesCurrentIsNil simEnv (world simStart)"
    by (simp_all add: sim_eval)
  have frame: "\<forall>h s. completerIsActive simEnv (perform simEnv (HintSet h) s) = completerIsActive simEnv s"
    by (simp add: simEnv_def)
  have inactive: "\<not> completerIsActive simEnv (world simStart)"
    by (simp add: sim_eval)
  have hint: "simHint (world (historyCompletion simEnv True False False simStart))
        = CHR 0x1B # ''[2m'' @ CHR 0x1B # ''[31m'' @ ''No command history source ''
             @ CHR 0x1B # ''[0m''"
    by (simp add: historyCompletion_def historyCompletionDefault_def noHistoryHint_def sim_eval)
  have cols: "colorDim simEnv = CHR 0x1B # ''[2m''" "colorFgRed simEnv = CHR 0x1B # ''[31m''"
      "colorReset simEnv = CHR 0x1B # ''[0m''"
    by (simp_all add: simEnv_def)
  show ?thesis
    using historyCompletion_no_source [OF pre, of True False False] pre frame inactive hint cols
    by (simp add: world_invoke)
qed

text \<open>
  Claim C4: in menu-select or isearch mode, or with a forced session open,
  history-completion on the last source makes the calls \<open>Cycle(true)\<close>,
  \<open>ResetForce()\<close> and \<open>hint.Reset()\<close> and nothing else, so no session is
  generated; not on the last source it calls \<open>Cycle(true)\<close> and goes on with the
  \<open>default\<close> case, which, the source cycled to being there, opens a session on it:
  \<open>GenerateWith\<close> and \<open>IsearchStart\<close> with the name of the source when
  \<open>incremental\<close>, \<open>startMenuComplete\<close> and \<open>AutocompleteForce\<close> otherwise.
\<close>

theorem historyCompletion_cycle:
  assumes "keymapsLocal E (world sh) = MenuSelect \<or> keymapsLocal E (world sh) = Isearch
           \<or> completerAutoCompleting E (world sh)"
  shows "(historiesOnLastSource E (world sh) \<longrightarrow>
            historyCompletion E forward filterLine incremental sh
              = invokeAll E [HistoriesCycle True, CompleterResetForce, HintReset] sh
          \<and> callsOf (historyCompletion E forward filterLine incremental) sh
              = [HistoriesCycle True, CompleterResetForce, HintReset])
       \<and> (\<not> historiesOnLastSource E (world sh) \<longrightarrow>
            historyCompletion E forward filterLine incremental sh
              = historyCompletionDefault E forward filterLine incremental
                  (invoke E (HistoriesCycle True) sh)
          \<and> (\<not> historiesCurrentIsNil E (perform E (HistoriesCycle True) (world sh)) \<longrightarrow>
               callsOf (historyCompletion E forward filterLine incremental) sh
                 = (if incremental
                    then [HistoriesCycle True,
                          CompleterGenerateWith (HistoriesComplete forward filterLine),
                          CompleterIsearchStart
                            (historiesName E
                               (perform E (CompleterGenerateWith (HistoriesComplete forward filterLine))
                                  (perform E (HistoriesCycle True) (world sh)))) True]
                    else [HistoriesCycle True, UndoSkipSave, KeymapsSetLocal MenuSelect,
                          CompleterGenerateWith (HistoriesComplete forward filterLine),
                          CompleterAutocompleteForce])
             \<and> historyCompletion E forward filterLine incremental sh
                 = invokeAll E (callsOf (historyCompletion E forward filterLine incremental) sh) sh))"
  using assms
  by (simp add: historyCompletion_def historyCompletionDefault_def startMenuComplete_def
      callsOf_def trace_invoke world_invoke Let_def)

text \<open>
  Runs with two history sources: on the second one the command wraps to the first and
  stops; on the first one it moves to the second, "session", and opens a session on it.
\<close>

theorem historyCompletion_cycle_witness:
  "keymapsLocal simEnv (world (simMenu 1)) = MenuSelect
   \<and> historiesOnLastSource simEnv (world (simMenu 1))
   \<and> callsOf (historyCompletion simEnv True False False) (simMenu 1)
       = [HistoriesCycle True, CompleterResetForce, HintReset]
   \<and> simSourcePos (world (historyCompletion simEnv True False False (simMenu 1))) = 0
   \<and> keymapsLocal simEnv (world (simMenu 0)) = MenuSelect
   \<and> \<not> historiesOnLastSource simEnv (world (simMenu 0))
   \<and> \<not> historiesCurrentIsNil simEnv (perform simEnv (HistoriesCycle True) (world (simMenu 0)))
   \<and> callsOf (historyCompletion simEnv True False False) (simMenu 0)
       = [HistoriesCycle True, UndoSkipSave, KeymapsSetLocal MenuSelect,
          CompleterGenerateWith (HistoriesComplete True False), CompleterAutocompleteForce]
   \<and> callsOf (historyCompletion simEnv True False True) (simMenu 0)
       = [HistoriesCycle True, CompleterGenerateWith (HistoriesComplete True False),
          CompleterIsearchStart ''session'' True]
   \<and> simSourcePos (world (historyCompletion simEnv True False False (simMenu 0))) = 1"
proof -
  have mode: "keymapsLocal simEnv (world (simMenu 1)) = MenuSelect"
      "keymapsLocal simEnv (world (simMenu 0)) = MenuSelect"
    by (simp_all add: sim_eval)
  have src: "historiesOnLastSource simEnv (world (simMenu 1))"
      "\<not> historiesOnLastSource simEnv (world (simMenu 0))"
      "\<not> historiesCurrentIsNil simEnv (perform simEnv (HistoriesCycle True) (world (simMenu 0)))"
    by (simp_all add: sim_eval)
  have name: "historiesName simEnv
        (perform simEnv (CompleterGenerateWith (HistoriesComplete True False))
           (perform simEnv (HistoriesCycle True) (world (simMenu 0)))) = ''session''"
    by (simp add: sim_eval)
  have pos: "simSourcePos (world (historyCompletion simEnv True False False (simMenu 1))) = 0"
      "simSourcePos (world (historyCompletion simEnv True False False (simMenu 0))) = 1"
    by (simp_all add: historyCompletion_def historyCompletionDefault_def startMenuComplete_def
        sim_eval)
  show ?thesis
    using historyCompletion_cycle [of simEnv "simMenu 1" True False False]
      historyCompletion_cycle [of simEnv "simMenu 0" True False False]
      historyCompletion_cycle [of simEnv "simMenu 0" True False True]
      mode src name pos
    by simp
qed

end
